theory Spec2Isabelle
  imports Complex_Main "HOL-Library.AList" "HOL-Library.Multiset"
begin

section \<open>Parsed JSON values and the Python operations applied to them\<close>

text \<open>
  The three scripts read their input with \<^verbatim>\<open>json.load\<close> (or \<^verbatim>\<open>readlines\<close>) and then work on
  the parsed value. File reading and JSON decoding are outside the model: every function below
  starts from the decoded value.

  A decoded JSON value is \<^verbatim>\<open>None\<close>, a \<^verbatim>\<open>bool\<close>, an unbounded \<^verbatim>\<open>int\<close>, a \<^verbatim>\<open>float\<close>, a \<^verbatim>\<open>str\<close>,
  a \<^verbatim>\<open>list\<close> or a \<^verbatim>\<open>dict\<close> with string keys. A float is represented by the rational number it
  denotes; the non-standard constants \<^verbatim>\<open>NaN\<close> and \<^verbatim>\<open>Infinity\<close> are not represented. A dict is its
  list of items in insertion order; the decoder leaves every key once, so \<open>map_of\<close> is the lookup.
\<close>

datatype json =
    JNull
  | JBool bool
  | JInt int
  | JFloat rat
  | JStr string
  | JArr "json list"
  | JObj "(string \<times> json) list"

text \<open>The exceptions the scripts can raise; an uncaught exception ends the script.\<close>

datatype error = KeyError | TypeError | AttributeError | ValueError | IndexError

definition ebind :: "error + 'a \<Rightarrow> ('a \<Rightarrow> error + 'b) \<Rightarrow> error + 'b" where
  "ebind m f = (case m of Inl e \<Rightarrow> Inl e | Inr x \<Rightarrow> f x)"

text \<open>\<^verbatim>\<open>v.get(k, d)\<close>: only a dict has the method.\<close>

fun py_get :: "json \<Rightarrow> string \<Rightarrow> json \<Rightarrow> error + json" where
  "py_get (JObj kvs) k d = Inr (case map_of kvs k of None \<Rightarrow> d | Some v \<Rightarrow> v)"
| "py_get _ k d = Inl AttributeError"

text \<open>\<^verbatim>\<open>v[k]\<close> for a string \<open>k\<close>: a dict without the key raises \<^verbatim>\<open>KeyError\<close>, a list or a string
  wants an integer index, the other values are not subscriptable.\<close>

fun py_getitem :: "json \<Rightarrow> string \<Rightarrow> error + json" where
  "py_getitem (JObj kvs) k = (case map_of kvs k of None \<Rightarrow> Inl KeyError | Some v \<Rightarrow> Inr v)"
| "py_getitem _ k = Inl TypeError"

text \<open>A chain of subscripts \<^verbatim>\<open>v[k1][k2]...\<close>, evaluated left to right.\<close>

fun py_path :: "json \<Rightarrow> string list \<Rightarrow> error + json" where
  "py_path v [] = Inr v"
| "py_path v (k # ks) = (case py_getitem v k of Inl e \<Rightarrow> Inl e | Inr w \<Rightarrow> py_path w ks)"

text \<open>\<^verbatim>\<open>v > 0\<close>: defined on numbers (a bool is an int), a \<^verbatim>\<open>TypeError\<close> otherwise.\<close>

fun py_gt_zero :: "json \<Rightarrow> error + bool" where
  "py_gt_zero (JInt i) = Inr (0 < i)"
| "py_gt_zero (JFloat r) = Inr (0 < r)"
| "py_gt_zero (JBool b) = Inr b"
| "py_gt_zero _ = Inl TypeError"

text \<open>\<^verbatim>\<open>for x in v\<close>: a list yields its elements, a dict its keys, a string its characters.\<close>

fun py_iter :: "json \<Rightarrow> error + json list" where
  "py_iter (JArr xs) = Inr xs"
| "py_iter (JObj kvs) = Inr (map (\<lambda>kv. JStr (fst kv)) kvs)"
| "py_iter (JStr s) = Inr (map (\<lambda>c. JStr [c]) s)"
| "py_iter _ = Inl TypeError"

text \<open>Truth value of a decoded value, as \<^verbatim>\<open>if v\<close> and \<^verbatim>\<open>and\<close> take it.\<close>

fun py_truthy :: "json \<Rightarrow> bool" where
  "py_truthy JNull = False"
| "py_truthy (JBool b) = b"
| "py_truthy (JInt i) = (i \<noteq> 0)"
| "py_truthy (JFloat r) = (r \<noteq> 0)"
| "py_truthy (JStr s) = (s \<noteq> [])"
| "py_truthy (JArr xs) = (xs \<noteq> [])"
| "py_truthy (JObj kvs) = (kvs \<noteq> [])"

text \<open>
  A value used as a dict key or set element is hashed and compared with \<^verbatim>\<open>==\<close>. Lists and dicts
  are unhashable. Equal numbers are the same key whatever their type (\<^verbatim>\<open>1 == 1.0 == True\<close>), so
  a key is kept as \<open>hkey\<close>, on which HOL equality is Python's.
\<close>

datatype hkey = HNone | HNum rat | HStr string

fun py_hash :: "json \<Rightarrow> error + hkey" where
  "py_hash JNull = Inr HNone"
| "py_hash (JBool b) = Inr (HNum (if b then 1 else 0))"
| "py_hash (JInt i) = Inr (HNum (of_int i))"
| "py_hash (JFloat r) = Inr (HNum r)"
| "py_hash (JStr s) = Inr (HStr s)"
| "py_hash (JArr xs) = Inl TypeError"
| "py_hash (JObj kvs) = Inl TypeError"

section \<open>compare\_callinfo\_graph.py\<close>

subsection \<open>load\_edges\<close>

type_synonym edge_key = "hkey \<times> hkey \<times> hkey \<times> hkey \<times> hkey \<times> hkey"

record edge_detail =
  source :: json
  target :: json

text \<open>The snapshot \<^verbatim>\<open>covered_edges\<close>: a dict, kept as its items in insertion order.
  \<open>AList.update\<close> is the dict assignment: it replaces the value of a key that is present,
  in place, and appends a new key at the end.\<close>

type_synonym snapshot = "(edge_key \<times> edge_detail) list"

text \<open>The test of line 41, \<^verbatim>\<open>edge.get('hitCount', 0) > 0\<close>.\<close>

definition is_covered :: "json \<Rightarrow> error + bool" where
  "is_covered edge = ebind (py_get edge ''hitCount'' (JInt 0)) py_gt_zero"

text \<open>The six subscript chains of lines 42 to 49, in source order.\<close>

definition edge_fields :: "json \<Rightarrow> error + (json \<times> json \<times> json \<times> json \<times> json \<times> json)" where
  "edge_fields edge =
     ebind (py_path edge [''source'', ''serviceName'']) (\<lambda>a.
     ebind (py_path edge [''source'', ''simpleAPIMethod'', ''endpoint'']) (\<lambda>b.
     ebind (py_path edge [''source'', ''simpleAPIMethod'', ''method'']) (\<lambda>c.
     ebind (py_path edge [''target'', ''serviceName'']) (\<lambda>d.
     ebind (py_path edge [''target'', ''simpleAPIMethod'', ''endpoint'']) (\<lambda>e.
     ebind (py_path edge [''target'', ''simpleAPIMethod'', ''method'']) (\<lambda>f.
     Inr (a, b, c, d, e, f)))))))"

text \<open>Hashing the tuple hashes its six components.\<close>

definition tuple_hash :: "json \<times> json \<times> json \<times> json \<times> json \<times> json \<Rightarrow> error + edge_key" where
  "tuple_hash t = (case t of (a, b, c, d, e, f) \<Rightarrow>
     ebind (py_hash a) (\<lambda>a'.
     ebind (py_hash b) (\<lambda>b'.
     ebind (py_hash c) (\<lambda>c'.
     ebind (py_hash d) (\<lambda>d'.
     ebind (py_hash e) (\<lambda>e'.
     ebind (py_hash f) (\<lambda>f'.
     Inr (a', b', c', d', e', f'))))))))"

definition edge_key_of :: "json \<Rightarrow> error + edge_key" where
  "edge_key_of edge = ebind (edge_fields edge) tuple_hash"

text \<open>The value stored at lines 50 to 53.\<close>

definition edge_detail_of :: "json \<Rightarrow> error + edge_detail" where
  "edge_detail_of edge =
     ebind (py_getitem edge ''source'') (\<lambda>s.
     ebind (py_getitem edge ''target'') (\<lambda>t.
     Inr \<lparr>source = s, target = t\<rparr>))"

text \<open>One turn of the loop of lines 40 to 53. The tuple is built first, then the right-hand
  side of the assignment, then the key is hashed by the store.\<close>

definition edge_step :: "snapshot \<Rightarrow> json \<Rightarrow> error + snapshot" where
  "edge_step covered_edges edge =
     ebind (is_covered edge) (\<lambda>hit.
       if hit then
         ebind (edge_fields edge) (\<lambda>fields.
         ebind (edge_detail_of edge) (\<lambda>detail.
         ebind (tuple_hash fields) (\<lambda>edge_key.
         Inr (AList.update edge_key detail covered_edges))))
       else Inr covered_edges)"

fun edges_loop :: "snapshot \<Rightarrow> json list \<Rightarrow> error + snapshot" where
  "edges_loop covered_edges [] = Inr covered_edges"
| "edges_loop covered_edges (edge # edges) =
     (case edge_step covered_edges edge of
        Inl e \<Rightarrow> Inl e
      | Inr covered_edges' \<Rightarrow> edges_loop covered_edges' edges)"

text \<open>\<open>load_edges\<close> from the decoded report \<open>data\<close> (lines 38 to 54).\<close>

definition load_edges :: "json \<Rightarrow> error + snapshot" where
  "load_edges data =
     ebind (py_path data [''finalCallInfoGraph'', ''edges'']) (\<lambda>edges.
     ebind (py_iter edges) (\<lambda>es. edges_loop [] es))"

subsection \<open>compare\_coverage\<close>

text \<open>
  Lines 73 to 77 build two sets of keys and iterate over them. A set yields its elements once
  each, in the order of its hash table, which depends on the hash values of the keys; the hash
  of a string changes from one interpreter process to the next. The order is therefore a
  parameter \<open>set_order\<close> of the model: it takes the elements of the set and returns them in
  the order the iteration yields them.
\<close>

definition hash_order :: "('a list \<Rightarrow> 'a list) \<Rightarrow> bool" where
  "hash_order set_order = (\<forall>ks. distinct ks \<longrightarrow> mset (set_order ks) = mset ks)"

text \<open>\<^verbatim>\<open>set(d1.keys()) - set(d2.keys())\<close>, as the list its iteration yields.\<close>

definition key_difference :: "(edge_key list \<Rightarrow> edge_key list) \<Rightarrow> snapshot \<Rightarrow> snapshot \<Rightarrow> edge_key list" where
  "key_difference set_order d1 d2 =
     set_order (filter (\<lambda>k. k \<notin> set (map fst d2)) (map fst d1))"

text \<open>\<^verbatim>\<open>[d[k] for k in ks]\<close>; a key that is not in the dict raises \<^verbatim>\<open>KeyError\<close>.\<close>

fun lookup_all :: "snapshot \<Rightarrow> edge_key list \<Rightarrow> error + edge_detail list" where
  "lookup_all d [] = Inr []"
| "lookup_all d (k # ks) =
     (case map_of d k of
        None \<Rightarrow> Inl KeyError
      | Some v \<Rightarrow> (case lookup_all d ks of Inl e \<Rightarrow> Inl e | Inr vs \<Rightarrow> Inr (v # vs)))"

text \<open>Lines 73 to 79, on the two loaded snapshots.\<close>

definition compare_snapshots ::
  "(edge_key list \<Rightarrow> edge_key list) \<Rightarrow> snapshot \<Rightarrow> snapshot \<Rightarrow> error + (edge_detail list \<times> edge_detail list)" where
  "compare_snapshots set_order covered1 covered2 =
     ebind (lookup_all covered1 (key_difference set_order covered1 covered2)) (\<lambda>only_in_1.
     ebind (lookup_all covered2 (key_difference set_order covered2 covered1)) (\<lambda>only_in_2.
     Inr (only_in_1, only_in_2)))"

text \<open>\<open>compare_coverage\<close> (lines 70 to 79), from the two decoded reports.\<close>

definition compare_coverage ::
  "(edge_key list \<Rightarrow> edge_key list) \<Rightarrow> json \<Rightarrow> json \<Rightarrow> error + (edge_detail list \<times> edge_detail list)" where
  "compare_coverage set_order data1 data2 =
     ebind (load_edges data1) (\<lambda>covered1.
     ebind (load_edges data2) (\<lambda>covered2.
     compare_snapshots set_order covered1 covered2))"

section \<open>test\_process\_visualize.py\<close>

subsection \<open>The pattern of extract\_test\_scenarios\<close>

text \<open>
  A log line is a string of 8-bit characters. The pattern of lines 34 to 37 is a sequence of
  three kinds of items: a literal text, the lazy \<^verbatim>\<open>.*?\<close>, and a capturing group
  \<^verbatim>\<open>([...]+)\<close> over a character class. \<^verbatim>\<open>re.IGNORECASE\<close> holds for the whole pattern, so
  literals and classes are compared on lower-case characters.
\<close>

datatype item = Lit string | LazyAny | Grp "char \<Rightarrow> bool"

definition lower :: "char \<Rightarrow> char" where
  "lower c = (let n = (of_char c :: nat) in if 65 \<le> n \<and> n \<le> 90 then char_of (n + 32) else c)"

definition is_digit :: "char \<Rightarrow> bool" where
  "is_digit c = (let n = (of_char c :: nat) in 48 \<le> n \<and> n \<le> 57)"

text \<open>\<^verbatim>\<open>[a-f0-9\-]\<close>, ignoring case.\<close>

definition is_uuid_char :: "char \<Rightarrow> bool" where
  "is_uuid_char c = (let n = (of_char (lower c) :: nat) in (97 \<le> n \<and> n \<le> 102) \<or> is_digit c \<or> c = CHR ''-'')"

text \<open>\<^verbatim>\<open>[0-9\.]\<close>.\<close>

definition is_decimal_char :: "char \<Rightarrow> bool" where
  "is_decimal_char c = (is_digit c \<or> c = CHR ''.'')"

definition scenario_pattern :: "item list" where
  "scenario_pattern =
     [Lit ''Finish execute current test scenario '', LazyAny,
      Lit ''UUID: '', Grp is_uuid_char, LazyAny,
      Lit ''Edge covered count: '', Grp is_digit, LazyAny,
      Lit ''Edge coverage: '', Grp is_decimal_char, LazyAny,
      Lit ''covered status code count: '', Grp is_digit]"

text \<open>A literal matches at the head of the text and leaves the rest.\<close>

fun lit_match :: "string \<Rightarrow> string \<Rightarrow> string option" where
  "lit_match [] s = Some s"
| "lit_match (p # ps) [] = None"
| "lit_match (p # ps) (c # cs) = (if lower p = lower c then lit_match ps cs else None)"

text \<open>
  The matcher backtracks as \<^verbatim>\<open>re\<close> does: \<^verbatim>\<open>.*?\<close> first tries the rest of the pattern where it
  stands and takes one more character (never a newline) only when that fails; a group first
  takes every character of its class and gives them back one at a time, keeping at least one.
  \<open>k\<close> is the matcher of the rest of the pattern; the result is the list of captured groups.
\<close>

primrec lazy_any :: "(string \<Rightarrow> string list option) \<Rightarrow> string \<Rightarrow> string list option" where
  "lazy_any k [] = k []"
| "lazy_any k (c # cs) =
     (case k (c # cs) of
        Some groups \<Rightarrow> Some groups
      | None \<Rightarrow> if c = CHR 0x0A then None else lazy_any k cs)"

primrec greedy_plus :: "(string \<Rightarrow> string list option) \<Rightarrow> string \<Rightarrow> nat \<Rightarrow> string list option" where
  "greedy_plus k s 0 = None"
| "greedy_plus k s (Suc n) =
     (case k (drop (Suc n) s) of
        Some groups \<Rightarrow> Some (take (Suc n) s # groups)
      | None \<Rightarrow> greedy_plus k s n)"

primrec match_items :: "item list \<Rightarrow> string \<Rightarrow> string list option" where
  "match_items [] = (\<lambda>s. Some [])"
| "match_items (i # r) =
     (case i of
        Lit l \<Rightarrow> (\<lambda>s. case lit_match l s of None \<Rightarrow> None | Some s' \<Rightarrow> match_items r s')
      | LazyAny \<Rightarrow> lazy_any (match_items r)
      | Grp P \<Rightarrow> (\<lambda>s. greedy_plus (match_items r) s (length (takeWhile P s))))"

text \<open>\<^verbatim>\<open>pattern.search(log)\<close>: the match at the leftmost position that has one.\<close>

fun pattern_search :: "string \<Rightarrow> string list option" where
  "pattern_search [] = match_items scenario_pattern []"
| "pattern_search (c # cs) =
     (case match_items scenario_pattern (c # cs) of
        Some groups \<Rightarrow> Some groups
      | None \<Rightarrow> pattern_search cs)"

subsection \<open>extract\_test\_scenarios\<close>

text \<open>\<^verbatim>\<open>int(s)\<close> on a string of digits.\<close>

definition digit_value :: "char \<Rightarrow> int" where
  "digit_value c = int (of_char c) - 48"

definition py_int :: "string \<Rightarrow> error + int" where
  "py_int s =
     (if s \<noteq> [] \<and> list_all is_digit s
      then Inr (foldl (\<lambda>acc c. 10 * acc + digit_value c) 0 s)
      else Inl ValueError)"

text \<open>
  \<^verbatim>\<open>float(s)\<close> on a string of digits and dots, which is all the third group can hold: digits
  with at most one dot, and at least one digit; anything else is a \<^verbatim>\<open>ValueError\<close>. The result is
  the decimal number the text denotes (the rounding to a binary float is not represented).
\<close>

definition py_float :: "string \<Rightarrow> error + rat" where
  "py_float s =
     (let ip = takeWhile is_digit s; rest = dropWhile is_digit s in
      case rest of
        [] \<Rightarrow> (case py_int ip of Inl e \<Rightarrow> Inl e | Inr n \<Rightarrow> Inr (of_int n))
      | c # fp \<Rightarrow>
          if c = CHR ''.'' \<and> list_all is_digit fp \<and> (ip \<noteq> [] \<or> fp \<noteq> [])
          then (case py_int (ip @ fp) of
                  Inl e \<Rightarrow> Inl e
                | Inr n \<Rightarrow> Inr (of_int n / of_int (10 ^ length fp)))
          else Inl ValueError)"

text \<open>The tuple appended at line 47.\<close>

type_synonym scenario = "string \<times> int \<times> rat \<times> int"

text \<open>\<^verbatim>\<open>match.group(i)\<close>, an \<^verbatim>\<open>IndexError\<close> when the match has no such group.\<close>

definition group :: "string list \<Rightarrow> nat \<Rightarrow> error + string" where
  "group groups i = (if 1 \<le> i \<and> i \<le> length groups then Inr (groups ! (i - 1)) else Inl IndexError)"

text \<open>The body of the loop, lines 41 to 47: \<open>None\<close> when the line does not match.\<close>

definition scenario_of_line :: "string \<Rightarrow> error + scenario option" where
  "scenario_of_line log_line =
     (case pattern_search log_line of
        None \<Rightarrow> Inr None
      | Some m \<Rightarrow>
          ebind (group m 1) (\<lambda>uuid.
          ebind (ebind (group m 2) py_int) (\<lambda>edge_covered_count.
          ebind (ebind (group m 3) py_float) (\<lambda>edge_coverage.
          ebind (ebind (group m 4) py_int) (\<lambda>status_code_count.
          Inr (Some (uuid, edge_covered_count, edge_coverage, status_code_count)))))))"

fun scenarios_loop :: "scenario list \<Rightarrow> string list \<Rightarrow> error + scenario list" where
  "scenarios_loop test_data [] = Inr test_data"
| "scenarios_loop test_data (log_line # logs) =
     (case scenario_of_line log_line of
        Inl e \<Rightarrow> Inl e
      | Inr None \<Rightarrow> scenarios_loop test_data logs
      | Inr (Some row) \<Rightarrow> scenarios_loop (test_data @ [row]) logs)"

definition extract_test_scenarios :: "string list \<Rightarrow> error + scenario list" where
  "extract_test_scenarios logs = scenarios_loop [] logs"

subsection \<open>plot\_graphs and main\<close>

text \<open>The four sequences \<open>plot_graphs\<close> computes at lines 53 to 56; drawing them is outside the
  model.\<close>

record series =
  x_axis :: "nat list"
  edge_covered_counts :: "int list"
  edge_coverages :: "rat list"
  status_code_counts :: "int list"

definition plot_graphs :: "scenario list \<Rightarrow> series" where
  "plot_graphs test_data =
     \<lparr>x_axis = [1 ..< length test_data + 1],
      edge_covered_counts = map (\<lambda>d. fst (snd d)) test_data,
      edge_coverages = map (\<lambda>d. fst (snd (snd d))) test_data,
      status_code_counts = map (\<lambda>d. snd (snd (snd d))) test_data\<rparr>"

text \<open>What \<open>main\<close> does with the lines of the log: the graphs of a series, or the message
  \<^verbatim>\<open>No relevant logs found.\<close>\<close>

datatype outcome = GraphsSaved series | NoRelevantLogs

definition main :: "string list \<Rightarrow> error + outcome" where
  "main logs =
     ebind (extract_test_scenarios logs) (\<lambda>test_data.
       if test_data \<noteq> [] then Inr (GraphsSaved (plot_graphs test_data))
       else Inr NoRelevantLogs)"

section \<open>CoSREST/convert\_sisp\_to\_dict.py\<close>

text \<open>\<^verbatim>\<open>samples[0]\<close>.\<close>

fun py_first :: "json \<Rightarrow> error + json" where
  "py_first (JArr []) = Inl IndexError"
| "py_first (JArr (v # vs)) = Inr v"
| "py_first (JStr []) = Inl IndexError"
| "py_first (JStr (c # cs)) = Inr (JStr [c])"
| "py_first (JObj kvs) = Inl KeyError"
| "py_first _ = Inl TypeError"

text \<open>An element of \<open>output\<close>, \<^verbatim>\<open>{"name": ..., "value": ...}\<close>.\<close>

record sample =
  name :: json
  val :: json

text \<open>
  The body of the inner loop, lines 48 to 56, on the state \<open>(seen_categories, output)\<close>. The
  membership test hashes \<open>category\<close> before \<^verbatim>\<open>and\<close> looks at \<open>samples\<close>.
\<close>

definition valid_step :: "json \<Rightarrow> hkey set \<times> sample list \<Rightarrow> json \<Rightarrow> error + (hkey set \<times> sample list)" where
  "valid_step param_name st valid =
     (case st of (seen_categories, output) \<Rightarrow>
        ebind (py_get valid ''category'' JNull) (\<lambda>category.
        ebind (py_get valid ''samples'' (JArr [])) (\<lambda>samples.
        ebind (py_hash category) (\<lambda>c.
          if c \<notin> seen_categories \<and> py_truthy samples then
            ebind (py_first samples) (\<lambda>v.
            Inr (insert c seen_categories, output @ [\<lparr>name = param_name, val = v\<rparr>]))
          else Inr (seen_categories, output)))))"

fun valids_loop :: "json \<Rightarrow> hkey set \<times> sample list \<Rightarrow> json list \<Rightarrow> error + (hkey set \<times> sample list)" where
  "valids_loop param_name st [] = Inr st"
| "valids_loop param_name st (valid # valid_entries) =
     (case valid_step param_name st valid of
        Inl e \<Rightarrow> Inl e
      | Inr st' \<Rightarrow> valids_loop param_name st' valid_entries)"

text \<open>The body of the outer loop, lines 43 to 56: \<open>seen_categories\<close> starts empty for each entry.\<close>

definition entry_step :: "sample list \<Rightarrow> json \<Rightarrow> error + sample list" where
  "entry_step output entry =
     ebind (py_get entry ''param_name'' JNull) (\<lambda>param_name.
     ebind (py_get entry ''valid'' (JArr [])) (\<lambda>valid_entries.
     ebind (py_iter valid_entries) (\<lambda>vs.
     ebind (valids_loop param_name ({}, output) vs) (\<lambda>st. Inr (snd st)))))"

fun entries_loop :: "sample list \<Rightarrow> json list \<Rightarrow> error + sample list" where
  "entries_loop output [] = Inr output"
| "entries_loop output (entry # entries) =
     (case entry_step output entry of
        Inl e \<Rightarrow> Inl e
      | Inr output' \<Rightarrow> entries_loop output' entries)"

text \<open>The list \<open>output\<close> of \<open>extract_valid_samples\<close> after the loops, lines 40 to 56, from the
  decoded \<open>data\<close>. Line 59 then sorts it by \<open>name\<close>, which does not change its elements.\<close>

definition extract_valid_samples :: "json \<Rightarrow> error + sample list" where
  "extract_valid_samples data = ebind (py_iter data) (entries_loop [])"

section \<open>Example inputs\<close>

text \<open>The descriptor of one side of an edge, an edge record and a report, as the reports of
  the fuzzer hold them; used where a property is evaluated at a concrete input.\<close>

definition api :: "string \<Rightarrow> string \<Rightarrow> string \<Rightarrow> json" where
  "api s e m =
     JObj [(''serviceName'', JStr s),
           (''simpleAPIMethod'', JObj [(''endpoint'', JStr e), (''method'', JStr m)])]"

definition edge_record :: "json \<Rightarrow> json \<Rightarrow> int \<Rightarrow> json" where
  "edge_record s t h = JObj [(''source'', s), (''target'', t), (''hitCount'', JInt h)]"

definition report :: "json list \<Rightarrow> json" where
  "report es = JObj [(''finalCallInfoGraph'', JObj [(''edges'', JArr es)])]"

definition key_of :: "string \<Rightarrow> string \<Rightarrow> string \<Rightarrow> string \<Rightarrow> string \<Rightarrow> string \<Rightarrow> edge_key" where
  "key_of a b c d e f = (HStr a, HStr b, HStr c, HStr d, HStr e, HStr f)"

text \<open>The two reports of the scenario of the specification.\<close>

definition report1 :: json where
  "report1 = report
     [edge_record (api ''S1'' ''/a'' ''GET'') (api ''S2'' ''/b'' ''POST'') 3,
      edge_record (api ''S1'' ''/c'' ''GET'') (api ''S3'' ''/d'' ''GET'') 0]"

definition report2 :: json where
  "report2 = report
     [edge_record (api ''S1'' ''/a'' ''GET'') (api ''S2'' ''/b'' ''POST'') 1,
      edge_record (api ''S2'' ''/b'' ''POST'') (api ''S3'' ''/d'' ''GET'') 2]"

definition snapshot1 :: snapshot where
  "snapshot1 =
     [(key_of ''S1'' ''/a'' ''GET'' ''S2'' ''/b'' ''POST'',
       \<lparr>source = api ''S1'' ''/a'' ''GET'', target = api ''S2'' ''/b'' ''POST''\<rparr>)]"

definition snapshot2 :: snapshot where
  "snapshot2 =
     [(key_of ''S1'' ''/a'' ''GET'' ''S2'' ''/b'' ''POST'',
       \<lparr>source = api ''S1'' ''/a'' ''GET'', target = api ''S2'' ''/b'' ''POST''\<rparr>),
      (key_of ''S2'' ''/b'' ''POST'' ''S3'' ''/d'' ''GET'',
       \<lparr>source = api ''S2'' ''/b'' ''POST'', target = api ''S3'' ''/d'' ''GET''\<rparr>)]"

text \<open>The first report of the scenario without its uncovered edge.\<close>

definition report1_covered :: json where
  "report1_covered = report
     [edge_record (api ''S1'' ''/a'' ''GET'') (api ''S2'' ''/b'' ''POST'') 3]"

text \<open>A descriptor with one more field, and a report in which one edge occurs three times:
  covered, covered again with another description, and at last with hit count 0.\<close>

definition api_note :: "string \<Rightarrow> string \<Rightarrow> string \<Rightarrow> string \<Rightarrow> json" where
  "api_note s e m n =
     JObj [(''serviceName'', JStr s),
           (''simpleAPIMethod'', JObj [(''endpoint'', JStr e), (''method'', JStr m)]),
           (''note'', JStr n)]"

definition repeated_edges :: "json list" where
  "repeated_edges =
     [edge_record (api_note ''S1'' ''/a'' ''GET'' ''first'') (api ''S2'' ''/b'' ''POST'') 1,
      edge_record (api_note ''S1'' ''/a'' ''GET'' ''second'') (api ''S2'' ''/b'' ''POST'') 2,
      edge_record (api_note ''S1'' ''/a'' ''GET'' ''third'') (api ''S2'' ''/b'' ''POST'') 0]"

definition repeated_snapshot :: snapshot where
  "repeated_snapshot =
     [(key_of ''S1'' ''/a'' ''GET'' ''S2'' ''/b'' ''POST'',
       \<lparr>source = api_note ''S1'' ''/a'' ''GET'' ''second'', target = api ''S2'' ''/b'' ''POST''\<rparr>)]"

text \<open>Two records without a target: the first has no hit count, the second is covered.\<close>

definition broken_edges :: "json list" where
  "broken_edges =
     [JObj [(''source'', api ''S1'' ''/a'' ''GET'')],
      JObj [(''source'', api ''S1'' ''/a'' ''GET''), (''hitCount'', JInt 2)]]"

text \<open>Log lines: a scenario record as the specification gives it, a line of noise, a record
  whose coverage text has two dots, and a record whose coverage text is a lone dot.\<close>

definition scenario_line :: string where
  "scenario_line = ''2025-01-01 INFO Finish execute current test scenario x, UUID: abc-123 , Edge covered count: 42 , Edge coverage: 0.75 , covered status code count: 5''"

definition noise_line :: string where
  "noise_line = ''2025-01-01 DEBUG Start execute current test scenario''"

definition two_dots_line :: string where
  "two_dots_line = ''Finish execute current test scenario UUID: ab Edge covered count: 1 Edge coverage: 1.2.3 covered status code count: 2''"

definition lone_dot_line :: string where
  "lone_dot_line = ''Finish execute current test scenario UUID: ab Edge covered count: 1 Edge coverage: . covered status code count: 2''"

text \<open>Three \<^verbatim>\<open>valid\<close> items of one category: with an empty list of samples, without the
  list, and with two samples.\<close>

definition valid_empty :: json where
  "valid_empty = JObj [(''category'', JStr ''uuid''), (''samples'', JArr [])]"

definition valid_absent :: json where
  "valid_absent = JObj [(''category'', JStr ''uuid'')]"

definition valid_full :: json where
  "valid_full =
     JObj [(''category'', JStr ''uuid''), (''samples'', JArr [JStr ''abc-123'', JStr ''def-456''])]"

section \<open>Properties of compare\_coverage\<close>

lemma hash_order_id: "hash_order id"
  by (simp add: hash_order_def)

lemma hash_order_rev: "hash_order rev"
  by (simp add: hash_order_def)

lemma hash_order_set: "hash_order so \<Longrightarrow> distinct ks \<Longrightarrow> set (so ks) = set ks"
  unfolding hash_order_def by (metis set_mset_mset)

lemma hash_order_Nil: "hash_order so \<Longrightarrow> so [] = []"
  unfolding hash_order_def by (metis distinct.simps(1) mset_zero_iff)

lemma load_edges_report1: "load_edges report1 = Inr snapshot1"
  by code_simp

lemma load_edges_report2: "load_edges report2 = Inr snapshot2"
  by code_simp

text \<open>Every key handed to the comprehension is a key of the dict, so no lookup fails.\<close>

lemma lookup_all_map:
  "set ks \<subseteq> fst ` set d \<Longrightarrow> lookup_all d ks = Inr (map (\<lambda>k. the (map_of d k)) ks)"
proof (induction ks)
  case Nil
  then show ?case by simp
next
  case (Cons k ks)
  then obtain v where "map_of d k = Some v"
    by (metis list.set_intros(1) map_of_eq_None_iff not_Some_eq subsetD)
  with Cons show ?case by simp
qed

text \<open>In a dict the values of a selection of keys are the values of the selected items.\<close>

lemma values_of_keys:
  "distinct (map fst d) \<Longrightarrow>
   map (\<lambda>k. the (map_of d k)) (filter P (map fst d)) = map snd (filter (\<lambda>kv. P (fst kv)) d)"
proof (induction d)
  case Nil
  then show ?case by simp
next
  case (Cons a d)
  obtain k v where a: "a = (k, v)" by (cases a)
  have "k \<notin> fst ` set d" using Cons.prems a by simp
  then have *: "map (\<lambda>k'. the (map_of ((k, v) # d) k')) (filter P (map fst d))
      = map (\<lambda>k'. the (map_of d k')) (filter P (map fst d))"
    by (intro map_cong) (auto simp: image_iff)
  show ?case using Cons a * by simp
qed

lemma only_in_mset:
  assumes "hash_order so" and "distinct (map fst d1)"
  shows "\<exists>vs. lookup_all d1 (key_difference so d1 d2) = Inr vs
      \<and> mset vs = mset (map snd (filter (\<lambda>kv. fst kv \<notin> fst ` set d2) d1))"
proof -
  let ?ks = "filter (\<lambda>k. k \<notin> set (map fst d2)) (map fst d1)"
  let ?val = "\<lambda>k. the (map_of d1 k)"
  have dist: "distinct ?ks" using assms(2) by simp
  have m: "mset (so ?ks) = mset ?ks" using assms(1) dist by (simp add: hash_order_def)
  have sub: "set (so ?ks) \<subseteq> fst ` set d1"
    using hash_order_set [OF assms(1) dist] by auto
  have l: "lookup_all d1 (key_difference so d1 d2) = Inr (map ?val (so ?ks))"
    unfolding key_difference_def using sub by (rule lookup_all_map)
  have p: "mset (map ?val (so ?ks)) = mset (map ?val ?ks)"
  proof -
    have "mset (map ?val (so ?ks)) = image_mset ?val (mset (so ?ks))"
      by (rule mset_map)
    also have "\<dots> = image_mset ?val (mset ?ks)"
      by (simp only: m)
    also have "\<dots> = mset (map ?val ?ks)"
      by (rule mset_map [symmetric])
    finally show ?thesis .
  qed
  have v: "map ?val ?ks = map snd (filter (\<lambda>kv. fst kv \<notin> fst ` set d2) d1)"
    using values_of_keys [OF assms(2), of "\<lambda>k. k \<notin> set (map fst d2)"] by (simp only: set_map)
  have "mset (map ?val (so ?ks)) = mset (map snd (filter (\<lambda>kv. fst kv \<notin> fst ` set d2) d1))"
    using p by (simp only: v)
  with l show ?thesis by (intro exI conjI)
qed

text \<open>
  Claim C2. For two snapshots \<open>A\<close> and \<open>B\<close> (dicts: every key once) the comparison succeeds;
  its first list holds, once each, the values that \<open>A\<close> stores under the keys that are not keys
  of \<open>B\<close>, its second list the values that \<open>B\<close> stores under the keys that are not keys of \<open>A\<close>.
  Only the keys decide: the stored values are not looked at.
\<close>

theorem compare_snapshots_set_difference:
  assumes "hash_order set_order" and "distinct (map fst A)" and "distinct (map fst B)"
  shows "\<exists>only_in_A only_in_B.
      compare_snapshots set_order A B = Inr (only_in_A, only_in_B)
    \<and> mset only_in_A = mset (map snd (filter (\<lambda>kv. fst kv \<notin> fst ` set B) A))
    \<and> mset only_in_B = mset (map snd (filter (\<lambda>kv. fst kv \<notin> fst ` set A) B))"
proof -
  obtain va where va: "lookup_all A (key_difference set_order A B) = Inr va"
     "mset va = mset (map snd (filter (\<lambda>kv. fst kv \<notin> fst ` set B) A))"
    using only_in_mset [OF assms(1,2)] by blast
  obtain vb where vb: "lookup_all B (key_difference set_order B A) = Inr vb"
     "mset vb = mset (map snd (filter (\<lambda>kv. fst kv \<notin> fst ` set A) B))"
    using only_in_mset [OF assms(1,3)] by blast
  show ?thesis using va vb by (simp add: compare_snapshots_def ebind_def)
qed

theorem compare_snapshots_set_difference_witness:
  "hash_order (id :: edge_key list \<Rightarrow> edge_key list)
   \<and> distinct (map fst snapshot1) \<and> distinct (map fst snapshot2)
   \<and> (\<exists>only_in_A only_in_B.
      compare_snapshots id snapshot1 snapshot2 = Inr (only_in_A, only_in_B)
    \<and> mset only_in_A = mset (map snd (filter (\<lambda>kv. fst kv \<notin> fst ` set snapshot2) snapshot1))
    \<and> mset only_in_B = mset (map snd (filter (\<lambda>kv. fst kv \<notin> fst ` set snapshot1) snapshot2)))"
proof -
  have d1: "distinct (map fst snapshot1)" by (simp add: snapshot1_def)
  have d2: "distinct (map fst snapshot2)" by (simp add: snapshot2_def key_of_def)
  show ?thesis
    using compare_snapshots_set_difference [OF hash_order_id d1 d2] hash_order_id d1 d2 by blast
qed

text \<open>The scenario of the specification: the edge with hit count 0 is not in the first
  snapshot, the shared edge is in neither list, and the edge that only the second report
  covers is the one element of the second list.\<close>

lemma compare_coverage_scenario:
  "compare_coverage id report1 report2 =
     Inr ([], [\<lparr>source = api ''S2'' ''/b'' ''POST'', target = api ''S3'' ''/d'' ''GET''\<rparr>])"
  by code_simp

text \<open>
  Claim C8. When two snapshots have the same keys, and so when they are the same snapshot, the
  comparison returns the pair of two empty lists.
\<close>

theorem compare_snapshots_equal_keys:
  assumes "hash_order set_order" and "fst ` set A = fst ` set B"
  shows "compare_snapshots set_order A B = Inr ([], [])"
proof -
  have "filter (\<lambda>k. k \<notin> set (map fst B)) (map fst A) = []"
    using assms(2) by (auto simp: filter_empty_conv)
  moreover have "filter (\<lambda>k. k \<notin> set (map fst A)) (map fst B) = []"
    using assms(2) by (auto simp: filter_empty_conv)
  ultimately show ?thesis
    using hash_order_Nil [OF assms(1)]
    by (simp add: compare_snapshots_def key_difference_def ebind_def)
qed

theorem compare_snapshots_equal_keys_witness:
  "hash_order (rev :: edge_key list \<Rightarrow> edge_key list)
   \<and> fst ` set snapshot2 = fst ` set snapshot2
   \<and> compare_snapshots rev snapshot2 snapshot2 = Inr ([], [])"
proof -
  have e: "fst ` set snapshot2 = fst ` set snapshot2" by (rule refl)
  show ?thesis
    using compare_snapshots_equal_keys [OF hash_order_rev e] hash_order_rev by blast
qed

text \<open>
  The order of the two lists is the iteration order of a set of tuples of strings. Both the
  identity and the reversal are orders that a hash table can produce, and on the second
  snapshot of the scenario against an empty one they give different lists.
\<close>

theorem compare_snapshots_order_counterexample:
  "compare_snapshots id snapshot2 [] \<noteq> compare_snapshots rev snapshot2 []"
  by (simp add: compare_snapshots_def key_difference_def ebind_def snapshot2_def key_of_def api_def)

text \<open>
  Claim C1, amended. The code does not sort: the lists come in the iteration order of the key
  sets. Two runs on the same two snapshots, whatever order their hash tables yield, both
  succeed and return the same entries with the same multiplicities in each of the two lists;
  only the order of the entries within a list can differ.
\<close>

theorem compare_snapshots_any_order:
  assumes "hash_order order1" and "hash_order order2"
    and "distinct (map fst A)" and "distinct (map fst B)"
  shows "\<exists>a1 b1 a2 b2.
      compare_snapshots order1 A B = Inr (a1, b1)
    \<and> compare_snapshots order2 A B = Inr (a2, b2)
    \<and> mset a1 = mset a2 \<and> mset b1 = mset b2"
proof -
  obtain a1 where a1: "lookup_all A (key_difference order1 A B) = Inr a1"
     "mset a1 = mset (map snd (filter (\<lambda>kv. fst kv \<notin> fst ` set B) A))"
    using only_in_mset [OF assms(1,3)] by blast
  obtain b1 where b1: "lookup_all B (key_difference order1 B A) = Inr b1"
     "mset b1 = mset (map snd (filter (\<lambda>kv. fst kv \<notin> fst ` set A) B))"
    using only_in_mset [OF assms(1,4)] by blast
  obtain a2 where a2: "lookup_all A (key_difference order2 A B) = Inr a2"
     "mset a2 = mset (map snd (filter (\<lambda>kv. fst kv \<notin> fst ` set B) A))"
    using only_in_mset [OF assms(2,3)] by blast
  obtain b2 where b2: "lookup_all B (key_difference order2 B A) = Inr b2"
     "mset b2 = mset (map snd (filter (\<lambda>kv. fst kv \<notin> fst ` set A) B))"
    using only_in_mset [OF assms(2,4)] by blast
  have "compare_snapshots order1 A B = Inr (a1, b1)"
    using a1(1) b1(1) by (simp add: compare_snapshots_def ebind_def)
  moreover have "compare_snapshots order2 A B = Inr (a2, b2)"
    using a2(1) b2(1) by (simp add: compare_snapshots_def ebind_def)
  moreover have "mset a1 = mset a2" by (simp only: a1(2) a2(2))
  moreover have "mset b1 = mset b2" by (simp only: b1(2) b2(2))
  ultimately show ?thesis by (intro exI conjI)
qed

theorem compare_snapshots_any_order_witness:
  "hash_order (id :: edge_key list \<Rightarrow> edge_key list)
   \<and> hash_order (rev :: edge_key list \<Rightarrow> edge_key list)
   \<and> distinct (map fst snapshot2) \<and> distinct (map fst ([] :: snapshot))
   \<and> (\<exists>a1 b1 a2 b2.
      compare_snapshots id snapshot2 [] = Inr (a1, b1)
    \<and> compare_snapshots rev snapshot2 [] = Inr (a2, b2)
    \<and> mset a1 = mset a2 \<and> mset b1 = mset b2)"
proof -
  have d1: "distinct (map fst snapshot2)" by (simp add: snapshot2_def key_of_def)
  have d2: "distinct (map fst ([] :: snapshot))" by simp
  show ?thesis
    using compare_snapshots_any_order [OF hash_order_id hash_order_rev d1 d2]
      hash_order_id hash_order_rev d1 d2
    by blast
qed

section \<open>Properties of the log analysis\<close>

lemma extract_noise: "extract_test_scenarios [noise_line] = Inr []"
  by code_simp

text \<open>
  Claim C9. \<open>main\<close> is the only caller of \<open>plot_graphs\<close>, and it tests the list of records
  first: when the log holds no scenario record it builds no series and reports
  \<^verbatim>\<open>No relevant logs found.\<close>
\<close>

theorem main_empty_reports_no_data:
  assumes "extract_test_scenarios logs = Inr []"
  shows "main logs = Inr NoRelevantLogs"
  using assms by (simp add: main_def ebind_def)

theorem main_empty_reports_no_data_witness:
  "extract_test_scenarios [noise_line] = Inr [] \<and> main [noise_line] = Inr NoRelevantLogs"
  using main_empty_reports_no_data [of "[noise_line]"] extract_noise by simp

text \<open>So a series that \<open>main\<close> hands to the plots always has a first scenario.\<close>

lemma main_series_nonempty:
  "main logs = Inr (GraphsSaved s) \<Longrightarrow> x_axis s \<noteq> []"
  by (auto simp: main_def ebind_def plot_graphs_def Suc_le_eq split: sum.splits if_splits)

text \<open>
  Claim C3. The third group of the pattern takes any run of digits and dots, and \<^verbatim>\<open>float\<close>
  rejects a run with two dots. The exception is not caught: with such a line between two good
  records the call returns no record at all, while the two good lines alone give two records.
\<close>

theorem extract_aborts_on_two_dots:
  "extract_test_scenarios [scenario_line, two_dots_line, scenario_line] = Inl ValueError
   \<and> extract_test_scenarios [scenario_line, scenario_line]
       = Inr [(''abc-123'', 42, 3 / 4, 5), (''abc-123'', 42, 3 / 4, 5)]"
  by code_simp

text \<open>As long as no line raises, the loop returns the records of the matching lines, one
  for each and in the order of the lines, and passes over the other lines.\<close>

lemma scenarios_loop_records:
  assumes "\<And>l. l \<in> set logs \<Longrightarrow> \<exists>r. scenario_of_line l = Inr r"
  shows "scenarios_loop test_data logs =
     Inr (test_data @ concat (map (\<lambda>l. case scenario_of_line l of
                                        Inr (Some row) \<Rightarrow> [row] | _ \<Rightarrow> []) logs))"
  using assms
proof (induction logs arbitrary: test_data)
  case Nil
  then show ?case by simp
next
  case (Cons l logs)
  obtain r where r: "scenario_of_line l = Inr r" using Cons.prems by auto
  have rest: "\<And>l'. l' \<in> set logs \<Longrightarrow> \<exists>r. scenario_of_line l' = Inr r"
    using Cons.prems by auto
  show ?case
  proof (cases r)
    case None
    then show ?thesis using r Cons.IH [OF rest] by simp
  next
    case (Some row)
    then show ?thesis using r Cons.IH [OF rest] by simp
  qed
qed

text \<open>
  Claim C6. A line whose coverage text is a lone dot holds no decimal number, yet the pattern
  matches it and \<^verbatim>\<open>float\<close> raises: the line is not discarded, and the record of the line
  before it is not returned.
\<close>

theorem extract_aborts_on_lone_dot:
  "extract_test_scenarios [scenario_line, noise_line, lone_dot_line] = Inl ValueError"
  by code_simp

section \<open>Properties of load\_edges\<close>

lemma edges_loop_append:
  "edges_loop c (xs @ ys) = (case edges_loop c xs of Inl e \<Rightarrow> Inl e | Inr c' \<Rightarrow> edges_loop c' ys)"
  by (induction xs arbitrary: c) (auto split: sum.splits)

lemma py_gt_zero_error: "py_gt_zero v = Inl e \<Longrightarrow> e = TypeError"
  by (cases v) auto

lemma py_get_error: "py_get v k d = Inl e \<Longrightarrow> e = AttributeError"
  by (cases v) auto

lemma py_hash_error: "py_hash v = Inl e \<Longrightarrow> e = TypeError"
  by (cases v) auto

lemma is_covered_error: "is_covered edge = Inl e \<Longrightarrow> e = AttributeError \<or> e = TypeError"
  unfolding is_covered_def ebind_def
  by (auto split: sum.splits dest: py_gt_zero_error py_get_error)

lemma tuple_hash_error: "tuple_hash t = Inl e \<Longrightarrow> e = TypeError"
  unfolding tuple_hash_def ebind_def
  by (auto split: prod.splits sum.splits dest: py_hash_error)

lemma uncovered_step:
  assumes "is_covered edge = Inr False"
  shows "edge_step c edge = Inr c"
  using assms by (simp add: edge_step_def ebind_def)

lemma is_covered_absent_or_nonpositive:
  assumes "map_of kvs ''hitCount'' = None
     \<or> (\<exists>n. map_of kvs ''hitCount'' = Some (JInt n) \<and> n \<le> 0)
     \<or> (\<exists>r. map_of kvs ''hitCount'' = Some (JFloat r) \<and> r \<le> 0)"
  shows "is_covered (JObj kvs) = Inr False"
  using assms by (auto simp: is_covered_def ebind_def)

lemma edge_fields_detail:
  assumes "edge_fields edge = Inr fs"
  shows "\<exists>d. edge_detail_of edge = Inr d"
  using assms unfolding edge_fields_def edge_detail_of_def ebind_def
  by (auto split: sum.splits)

lemma edge_step_Inr:
  assumes "edge_step c edge = Inr c'"
  shows "(is_covered edge = Inr False \<and> c' = c)
       \<or> (is_covered edge = Inr True
          \<and> (\<exists>k d. edge_key_of edge = Inr k \<and> edge_detail_of edge = Inr d \<and> c' = AList.update k d c))"
  using assms unfolding edge_step_def edge_key_of_def ebind_def
  by (auto split: sum.splits if_splits)

lemma edge_step_KeyError:
  assumes "edge_step c edge = Inl KeyError"
  shows "is_covered edge = Inr True \<and> edge_fields edge = Inl KeyError"
proof -
  have "is_covered edge \<noteq> Inl KeyError" using is_covered_error by blast
  moreover have "\<And>t. tuple_hash t \<noteq> Inl KeyError" using tuple_hash_error by blast
  moreover have "\<And>fs. edge_fields edge = Inr fs \<Longrightarrow> edge_detail_of edge \<noteq> Inl KeyError"
    using edge_fields_detail by fastforce
  ultimately show ?thesis
    using assms unfolding edge_step_def ebind_def
    by (auto split: sum.splits if_splits)
qed

lemma edges_loop_skip:
  assumes "is_covered edge = Inr False"
  shows "edges_loop c (pre @ edge # post) = edges_loop c (pre @ post)"
  using uncovered_step [OF assms]
  by (simp add: edges_loop_append split: sum.splits)

lemma edges_loop_KeyError:
  "edges_loop c edges = Inl KeyError \<Longrightarrow>
   \<exists>edge\<in>set edges. is_covered edge = Inr True \<and> edge_fields edge = Inl KeyError"
proof (induction edges arbitrary: c)
  case Nil
  then show ?case by simp
next
  case (Cons e es)
  show ?case
  proof (cases "edge_step c e")
    case (Inl err)
    with Cons.prems have "edge_step c e = Inl KeyError" by simp
    then show ?thesis using edge_step_KeyError by auto
  next
    case (Inr c')
    with Cons.prems have "edges_loop c' es = Inl KeyError" by simp
    then show ?thesis using Cons.IH by auto
  qed
qed

lemma edges_loop_snoc:
  "edges_loop c (xs @ [x]) = Inr c' \<Longrightarrow> \<exists>c1. edges_loop c xs = Inr c1 \<and> edge_step c1 x = Inr c'"
  by (auto simp: edges_loop_append split: sum.splits)

lemma edges_loop_lookup:
  "edges_loop c0 edges = Inr c \<Longrightarrow>
   map_option Inr (map_of c k) =
     (let occ = filter (\<lambda>e. is_covered e = Inr True \<and> edge_key_of e = Inr k) edges
      in if occ = [] then map_option Inr (map_of c0 k) else Some (edge_detail_of (last occ)))"
proof (induction edges arbitrary: c rule: rev_induct)
  case Nil
  then show ?case by simp
next
  case (snoc x xs)
  obtain c1 where c1: "edges_loop c0 xs = Inr c1" and st: "edge_step c1 x = Inr c"
    using edges_loop_snoc [OF snoc.prems] by blast
  note IH = snoc.IH [OF c1]
  from edge_step_Inr [OF st] show ?case
  proof (elim disjE conjE exE)
    assume "is_covered x = Inr False" "c = c1"
    then show ?thesis using IH by simp
  next
    fix k' d
    assume cov: "is_covered x = Inr True" and k': "edge_key_of x = Inr k'"
      and d: "edge_detail_of x = Inr d" and c: "c = AList.update k' d c1"
    show ?thesis
    proof (cases "k' = k")
      case True
      then show ?thesis using cov k' d c by (simp add: update_conv')
    next
      case False
      then show ?thesis using cov k' d c IH by (simp add: update_conv')
    qed
  qed
qed

lemma edges_loop_distinct:
  "edges_loop c0 edges = Inr c \<Longrightarrow> distinct (map fst c0) \<Longrightarrow> distinct (map fst c)"
proof (induction edges arbitrary: c0)
  case Nil
  then show ?case by simp
next
  case (Cons e es)
  then obtain c1 where s: "edge_step c0 e = Inr c1" and l: "edges_loop c1 es = Inr c"
    by (auto split: sum.splits)
  have "distinct (map fst c1)"
    using edge_step_Inr [OF s] Cons.prems(2) by (auto simp: distinct_update)
  then show ?case using Cons.IH [OF l] by simp
qed

lemma load_edges_JArr:
  "py_path data [''finalCallInfoGraph'', ''edges''] = Inr (JArr edges) \<Longrightarrow>
   load_edges data = edges_loop [] edges"
  by (simp add: load_edges_def ebind_def)

text \<open>
  Claim C4. An edge record without a hit count, or with a hit count that is zero or negative,
  leaves no trace: the report loads to the same result as the report without that record (so
  the missing hit count is not an error either), and every comparison that takes the one
  report gives what it gives on the other.
\<close>

theorem uncovered_edge_never_loaded:
  assumes "map_of kvs ''hitCount'' = None
     \<or> (\<exists>n. map_of kvs ''hitCount'' = Some (JInt n) \<and> n \<le> 0)
     \<or> (\<exists>r. map_of kvs ''hitCount'' = Some (JFloat r) \<and> r \<le> 0)"
    and "py_path data [''finalCallInfoGraph'', ''edges''] = Inr (JArr (pre @ JObj kvs # post))"
    and "py_path data' [''finalCallInfoGraph'', ''edges''] = Inr (JArr (pre @ post))"
  shows "load_edges data = load_edges data'
    \<and> compare_coverage set_order data other = compare_coverage set_order data' other
    \<and> compare_coverage set_order other data = compare_coverage set_order other data'"
proof -
  have "is_covered (JObj kvs) = Inr False"
    using assms(1) by (rule is_covered_absent_or_nonpositive)
  then have "edges_loop [] (pre @ JObj kvs # post) = edges_loop [] (pre @ post)"
    by (rule edges_loop_skip)
  then have "load_edges data = load_edges data'"
    by (simp only: load_edges_JArr [OF assms(2)] load_edges_JArr [OF assms(3)])
  then show ?thesis by (simp add: compare_coverage_def)
qed

theorem uncovered_edge_never_loaded_witness:
  "(map_of [(''source'', api ''S1'' ''/c'' ''GET''), (''target'', api ''S3'' ''/d'' ''GET''), (''hitCount'', JInt 0)] ''hitCount'' = None
     \<or> (\<exists>n. map_of [(''source'', api ''S1'' ''/c'' ''GET''), (''target'', api ''S3'' ''/d'' ''GET''), (''hitCount'', JInt 0)] ''hitCount'' = Some (JInt n) \<and> n \<le> 0)
     \<or> (\<exists>r. map_of [(''source'', api ''S1'' ''/c'' ''GET''), (''target'', api ''S3'' ''/d'' ''GET''), (''hitCount'', JInt 0)] ''hitCount'' = Some (JFloat r) \<and> r \<le> 0))
   \<and> py_path report1 [''finalCallInfoGraph'', ''edges'']
       = Inr (JArr ([edge_record (api ''S1'' ''/a'' ''GET'') (api ''S2'' ''/b'' ''POST'') 3]
            @ JObj [(''source'', api ''S1'' ''/c'' ''GET''), (''target'', api ''S3'' ''/d'' ''GET''), (''hitCount'', JInt 0)] # []))
   \<and> py_path report1_covered [''finalCallInfoGraph'', ''edges'']
       = Inr (JArr ([edge_record (api ''S1'' ''/a'' ''GET'') (api ''S2'' ''/b'' ''POST'') 3] @ []))
   \<and> load_edges report1 = load_edges report1_covered
   \<and> compare_coverage id report1 report2 = compare_coverage id report1_covered report2
   \<and> compare_coverage id report2 report1 = compare_coverage id report2 report1_covered"
proof -
  let ?kvs = "[(''source'', api ''S1'' ''/c'' ''GET''), (''target'', api ''S3'' ''/d'' ''GET''), (''hitCount'', JInt 0)]"
  let ?pre = "[edge_record (api ''S1'' ''/a'' ''GET'') (api ''S2'' ''/b'' ''POST'') 3]"
  have h1: "map_of ?kvs ''hitCount'' = None
     \<or> (\<exists>n. map_of ?kvs ''hitCount'' = Some (JInt n) \<and> n \<le> 0)
     \<or> (\<exists>r. map_of ?kvs ''hitCount'' = Some (JFloat r) \<and> r \<le> 0)"
    by simp
  have h2: "py_path report1 [''finalCallInfoGraph'', ''edges''] = Inr (JArr (?pre @ JObj ?kvs # []))"
    by (simp add: report1_def report_def edge_record_def)
  have h3: "py_path report1_covered [''finalCallInfoGraph'', ''edges''] = Inr (JArr (?pre @ []))"
    by (simp add: report1_covered_def report_def)
  show ?thesis
    using uncovered_edge_never_loaded [OF h1 h2 h3, of id report2] h1 h2 h3 by blast
qed

text \<open>
  Claim C5. After a successful load the snapshot maps a key to the detail of the last record
  that has this key among the records that pass the test of the hit count, and has no entry
  for a key that no such record has. Records that fail the test are not counted, so a later
  uncovered duplicate neither removes nor replaces the entry.
\<close>

theorem load_edges_last_covered_wins:
  assumes "py_path data [''finalCallInfoGraph'', ''edges''] = Inr (JArr edges)"
    and "load_edges data = Inr covered"
  shows "map_option Inr (map_of covered k) =
     (let occ = filter (\<lambda>e. is_covered e = Inr True \<and> edge_key_of e = Inr k) edges
      in if occ = [] then None else Some (edge_detail_of (last occ)))"
proof -
  have "edges_loop [] edges = Inr covered"
    using assms by (simp only: load_edges_JArr [OF assms(1)])
  from edges_loop_lookup [OF this, of k] show ?thesis by (simp add: Let_def)
qed

lemma path_repeated: "py_path (report repeated_edges) [''finalCallInfoGraph'', ''edges''] = Inr (JArr repeated_edges)"
  by (simp add: report_def)

lemma load_repeated: "load_edges (report repeated_edges) = Inr repeated_snapshot"
  by code_simp

lemma repeated_last:
  "(let occ = filter (\<lambda>e. is_covered e = Inr True
          \<and> edge_key_of e = Inr (key_of ''S1'' ''/a'' ''GET'' ''S2'' ''/b'' ''POST'')) repeated_edges
      in if occ = [] then None else Some (edge_detail_of (last occ)))
   = Some (Inr \<lparr>source = api_note ''S1'' ''/a'' ''GET'' ''second'', target = api ''S2'' ''/b'' ''POST''\<rparr>)"
  by code_simp

theorem load_edges_last_covered_wins_witness:
  "py_path (report repeated_edges) [''finalCallInfoGraph'', ''edges''] = Inr (JArr repeated_edges)
   \<and> load_edges (report repeated_edges) = Inr repeated_snapshot
   \<and> map_option Inr (map_of repeated_snapshot (key_of ''S1'' ''/a'' ''GET'' ''S2'' ''/b'' ''POST''))
       = Some (Inr \<lparr>source = api_note ''S1'' ''/a'' ''GET'' ''second'', target = api ''S2'' ''/b'' ''POST''\<rparr>)"
  using load_edges_last_covered_wins [OF path_repeated load_repeated,
      of "key_of ''S1'' ''/a'' ''GET'' ''S2'' ''/b'' ''POST''"]
    path_repeated load_repeated repeated_last
  by simp

text \<open>
  Claim C7. When loading ends in a \<^verbatim>\<open>KeyError\<close> on an edge, some record of the list passes the
  test of the hit count and one of its six identity subscripts finds no key. By
  \<open>uncovered_step\<close> a record that fails the test is passed over whatever else it holds.
\<close>

theorem key_error_only_from_covered_edge:
  assumes "py_path data [''finalCallInfoGraph'', ''edges''] = Inr (JArr edges)"
    and "load_edges data = Inl KeyError"
  shows "\<exists>edge\<in>set edges. is_covered edge = Inr True \<and> edge_fields edge = Inl KeyError"
proof -
  have "edges_loop [] edges = Inl KeyError"
    using assms by (simp only: load_edges_JArr [OF assms(1)])
  then show ?thesis by (rule edges_loop_KeyError)
qed

lemma path_broken: "py_path (report broken_edges) [''finalCallInfoGraph'', ''edges''] = Inr (JArr broken_edges)"
  by (simp add: report_def)

lemma load_broken: "load_edges (report broken_edges) = Inl KeyError"
  by code_simp

lemma load_broken_uncovered: "load_edges (report [hd broken_edges]) = Inr []"
  by code_simp

theorem key_error_only_from_covered_edge_witness:
  "py_path (report broken_edges) [''finalCallInfoGraph'', ''edges''] = Inr (JArr broken_edges)
   \<and> load_edges (report broken_edges) = Inl KeyError
   \<and> (\<exists>edge\<in>set broken_edges. is_covered edge = Inr True \<and> edge_fields edge = Inl KeyError)"
  using key_error_only_from_covered_edge [OF path_broken load_broken] path_broken load_broken
  by blast

section \<open>Properties of extract\_valid\_samples\<close>

lemma valid_step_skipped:
  assumes "py_get valid ''category'' JNull = Inr category" and "py_hash category = Inr c"
    and "py_get valid ''samples'' (JArr []) = Inr samples" and "\<not> py_truthy samples"
  shows "valid_step param_name st valid = Inr st"
  using assms by (cases st) (simp add: valid_step_def ebind_def)

lemma valid_step_taken:
  assumes "py_get valid ''category'' JNull = Inr category" and "py_hash category = Inr c"
    and "py_get valid ''samples'' (JArr []) = Inr (JArr (v # vs))" and "c \<notin> seen"
  shows "valid_step param_name (seen, out) valid
     = Inr (insert c seen, out @ [\<lparr>name = param_name, val = v\<rparr>])"
  using assms by (simp add: valid_step_def ebind_def)

lemma valids_loop_append:
  "valids_loop pn st (xs @ ys) =
     (case valids_loop pn st xs of Inl e \<Rightarrow> Inl e | Inr st' \<Rightarrow> valids_loop pn st' ys)"
  by (induction xs arbitrary: st) (auto split: sum.splits)

lemma valid_step_output:
  assumes "valid_step pn (seen, out) valid = Inr (seen', out')"
  shows "set out \<subseteq> set out'"
  using assms unfolding valid_step_def ebind_def
  by (auto split: sum.splits if_splits)

lemma valids_loop_output:
  "valids_loop pn (seen, out) vs = Inr (seen', out') \<Longrightarrow> set out \<subseteq> set out'"
proof (induction vs arbitrary: seen out)
  case Nil
  then show ?case by simp
next
  case (Cons a vs)
  then obtain s1 o1 where s: "valid_step pn (seen, out) a = Inr (s1, o1)"
    and l: "valids_loop pn (s1, o1) vs = Inr (seen', out')"
    by (auto split: sum.splits)
  from valid_step_output [OF s] Cons.IH [OF l] show ?case by blast
qed

text \<open>
  Claim C10. A \<^verbatim>\<open>valid\<close> item whose samples are empty or absent changes neither the set of
  seen categories nor the output. So when the category is still unseen after the items that
  follow it, the next item of that category with a non-empty list of samples adds its first
  sample, and the sample is in the output of the entry.
\<close>

theorem empty_samples_do_not_mark_category:
  assumes "py_get v1 ''category'' JNull = Inr category1" and "py_hash category1 = Inr c"
    and "py_get v1 ''samples'' (JArr []) = Inr samples1" and "\<not> py_truthy samples1"
    and "valids_loop param_name (seen, out) mid = Inr (seen', out')" and "c \<notin> seen'"
    and "py_get v2 ''category'' JNull = Inr category2" and "py_hash category2 = Inr c"
    and "py_get v2 ''samples'' (JArr []) = Inr (JArr (v # vs))"
  shows "valid_step param_name (seen, out) v1 = Inr (seen, out)
    \<and> valids_loop param_name (seen, out) (v1 # mid @ v2 # rest)
        = valids_loop param_name (insert c seen', out' @ [\<lparr>name = param_name, val = v\<rparr>]) rest
    \<and> (\<forall>final_seen final_out.
          valids_loop param_name (seen, out) (v1 # mid @ v2 # rest) = Inr (final_seen, final_out)
          \<longrightarrow> \<lparr>name = param_name, val = v\<rparr> \<in> set final_out)"
proof -
  have s1: "valid_step param_name (seen, out) v1 = Inr (seen, out)"
    using assms(1-4) by (rule valid_step_skipped)
  have s2: "valid_step param_name (seen', out') v2
      = Inr (insert c seen', out' @ [\<lparr>name = param_name, val = v\<rparr>])"
    using assms(7-9,6) by (rule valid_step_taken)
  have l: "valids_loop param_name (seen, out) (v1 # mid @ v2 # rest)
        = valids_loop param_name (insert c seen', out' @ [\<lparr>name = param_name, val = v\<rparr>]) rest"
    using s1 s2 assms(5) by (simp add: valids_loop_append)
  have "\<lparr>name = param_name, val = v\<rparr> \<in> set final_out"
    if "valids_loop param_name (seen, out) (v1 # mid @ v2 # rest) = Inr (final_seen, final_out)"
    for final_seen final_out
  proof -
    from that l have "valids_loop param_name (insert c seen', out' @ [\<lparr>name = param_name, val = v\<rparr>]) rest
        = Inr (final_seen, final_out)" by simp
    from valids_loop_output [OF this] show ?thesis by simp
  qed
  with s1 l show ?thesis by blast
qed

lemma extract_valid_samples_example:
  "extract_valid_samples (JArr [JObj [(''param_name'', JStr ''orderId''), (''valid'', JArr [valid_empty, valid_absent, valid_full, valid_full])]])
  = Inr [\<lparr>name = JStr ''orderId'', val = JStr ''abc-123''\<rparr>]"
  by code_simp

lemma valids_loop_example:
  "valids_loop (JStr ''orderId'') ({}, []) (valid_empty # [valid_absent] @ valid_full # [valid_full])
     = Inr ({HStr ''uuid''}, [\<lparr>name = JStr ''orderId'', val = JStr ''abc-123''\<rparr>])"
  by (simp add: valid_empty_def valid_absent_def valid_full_def valid_step_def ebind_def)

theorem empty_samples_do_not_mark_category_witness:
  "py_get valid_empty ''category'' JNull = Inr (JStr ''uuid'') \<and> py_hash (JStr ''uuid'') = Inr (HStr ''uuid'')
   \<and> py_get valid_empty ''samples'' (JArr []) = Inr (JArr []) \<and> \<not> py_truthy (JArr [])
   \<and> valids_loop (JStr ''orderId'') ({}, []) [valid_absent] = Inr ({}, []) \<and> HStr ''uuid'' \<notin> {}
   \<and> py_get valid_full ''category'' JNull = Inr (JStr ''uuid'')
   \<and> py_get valid_full ''samples'' (JArr []) = Inr (JArr (JStr ''abc-123'' # [JStr ''def-456'']))
   \<and> valid_step (JStr ''orderId'') ({}, []) valid_empty = Inr ({}, [])
   \<and> valids_loop (JStr ''orderId'') ({}, []) (valid_empty # [valid_absent] @ valid_full # [valid_full])
        = valids_loop (JStr ''orderId'')
            (insert (HStr ''uuid'') {}, [] @ [\<lparr>name = JStr ''orderId'', val = JStr ''abc-123''\<rparr>])
            [valid_full]
   \<and> valids_loop (JStr ''orderId'') ({}, []) (valid_empty # [valid_absent] @ valid_full # [valid_full])
        = Inr ({HStr ''uuid''}, [\<lparr>name = JStr ''orderId'', val = JStr ''abc-123''\<rparr>])
   \<and> \<lparr>name = JStr ''orderId'', val = JStr ''abc-123''\<rparr>
        \<in> set [\<lparr>name = JStr ''orderId'', val = JStr ''abc-123''\<rparr>]"
proof -
  have h1: "py_get valid_empty ''category'' JNull = Inr (JStr ''uuid'')"
    by (simp add: valid_empty_def)
  have h2: "py_hash (JStr ''uuid'') = Inr (HStr ''uuid'')" by simp
  have h3: "py_get valid_empty ''samples'' (JArr []) = Inr (JArr [])"
    by (simp add: valid_empty_def)
  have h4: "\<not> py_truthy (JArr [])" by simp
  have h5: "valids_loop (JStr ''orderId'') ({}, []) [valid_absent] = Inr ({}, [])"
    by (simp add: valid_absent_def valid_step_def ebind_def)
  have h6: "HStr ''uuid'' \<notin> {}" by simp
  have h7: "py_get valid_full ''category'' JNull = Inr (JStr ''uuid'')"
    by (simp add: valid_full_def)
  have h9: "py_get valid_full ''samples'' (JArr []) = Inr (JArr (JStr ''abc-123'' # [JStr ''def-456'']))"
    by (simp add: valid_full_def)
  note t = empty_samples_do_not_mark_category [OF h1 h2 h3 h4 h5 h6 h7 h2 h9, of "[valid_full]"]
  have m: "\<lparr>name = JStr ''orderId'', val = JStr ''abc-123''\<rparr>
        \<in> set [\<lparr>name = JStr ''orderId'', val = JStr ''abc-123''\<rparr>]"
    using t valids_loop_example by blast
  show ?thesis
    using t h1 h2 h3 h4 h5 h6 h7 h9 valids_loop_example m by blast
qed

end
